theory Spec2Isabelle
  imports Complex_Main "HOL-Library.Word" "HOL-Library.Sublist"
begin

unbundle bit_operations_syntax

section \<open>Python values\<close>

text \<open>
  The service (\<^verbatim>\<open>app.py\<close>) handles the value that \<^verbatim>\<open>request.get_json()\<close> returns with
  duck typing: \<^verbatim>\<open>.get\<close>, \<^verbatim>\<open>len\<close>, \<^verbatim>\<open>for\<close> and truth tests are applied to whatever the
  sender put into the body. The model therefore keeps the decoded document as a tree of
  Python values, and every operation that Python can refuse returns a sum: \<open>Inl\<close> the
  exception raised, \<open>Inr\<close> the value.

  A Python \<^verbatim>\<open>str\<close> is a \<open>string\<close>: one \<open>char\<close> per code point, for the code points
  below 256 (the range of an HTTP header decoded by the server, and of the literals of
  the program). A \<^verbatim>\<open>dict\<close> is an association list in insertion order, read with
  \<open>map_of\<close>. A \<^verbatim>\<open>float\<close> is kept as the rational it denotes; the program only tests it
  for truth and passes it on.
\<close>

type_synonym byte = "8 word"
type_synonym bytes = "byte list"

datatype json =
    JNull
  | JBool bool
  | JInt int
  | JFloat rat
  | JStr string
  | JArr "json list"
  | JObj "(string \<times> json) list"

datatype exn = AttributeError | TypeError

text \<open>Truth value testing, the \<^verbatim>\<open>not x\<close> and \<^verbatim>\<open>if x:\<close> of the source.\<close>

fun truthy :: "json \<Rightarrow> bool" where
  "truthy JNull = False"
| "truthy (JBool b) = b"
| "truthy (JInt n) = (n \<noteq> 0)"
| "truthy (JFloat r) = (r \<noteq> 0)"
| "truthy (JStr s) = (s \<noteq> [])"
| "truthy (JArr xs) = (xs \<noteq> [])"
| "truthy (JObj kvs) = (kvs \<noteq> [])"

text \<open>\<^verbatim>\<open>x.get(key, default)\<close>: only a dict has the method.\<close>

fun py_get :: "json \<Rightarrow> string \<Rightarrow> json \<Rightarrow> exn + json" where
  "py_get (JObj kvs) k d = Inr (case map_of kvs k of None \<Rightarrow> d | Some v \<Rightarrow> v)"
| "py_get _ k d = Inl AttributeError"

text \<open>\<^verbatim>\<open>len(x)\<close> and the elements \<^verbatim>\<open>for e in x\<close> visits (a dict yields its keys).\<close>

fun py_len :: "json \<Rightarrow> exn + int" where
  "py_len (JStr s) = Inr (int (length s))"
| "py_len (JArr xs) = Inr (int (length xs))"
| "py_len (JObj kvs) = Inr (int (length (remdups (map fst kvs))))"
| "py_len _ = Inl TypeError"

fun py_iter :: "json \<Rightarrow> exn + json list" where
  "py_iter (JStr s) = Inr (map (\<lambda>c. JStr [c]) s)"
| "py_iter (JArr xs) = Inr xs"
| "py_iter (JObj kvs) = Inr (map JStr (remdups (map fst kvs)))"
| "py_iter _ = Inl TypeError"

section \<open>SHA-256 and HMAC\<close>

text \<open>
  \<^verbatim>\<open>hmac.new(key, msg, hashlib.sha256).hexdigest()\<close> of the standard library, written out
  (FIPS 180-4 and RFC 2104) so that the signature check can be evaluated.
\<close>

type_synonym w32 = "32 word"

definition rotr :: "nat \<Rightarrow> w32 \<Rightarrow> w32" where
  "rotr n x = drop_bit n x OR push_bit (32 - n) x"

definition Ch :: "w32 \<Rightarrow> w32 \<Rightarrow> w32 \<Rightarrow> w32" where
  "Ch x y z = (x AND y) XOR (NOT x AND z)"

definition Maj :: "w32 \<Rightarrow> w32 \<Rightarrow> w32 \<Rightarrow> w32" where
  "Maj x y z = (x AND y) XOR (x AND z) XOR (y AND z)"

definition bsig0 :: "w32 \<Rightarrow> w32" where
  "bsig0 x = rotr 2 x XOR rotr 13 x XOR rotr 22 x"

definition bsig1 :: "w32 \<Rightarrow> w32" where
  "bsig1 x = rotr 6 x XOR rotr 11 x XOR rotr 25 x"

definition ssig0 :: "w32 \<Rightarrow> w32" where
  "ssig0 x = rotr 7 x XOR rotr 18 x XOR drop_bit 3 x"

definition ssig1 :: "w32 \<Rightarrow> w32" where
  "ssig1 x = rotr 17 x XOR rotr 19 x XOR drop_bit 10 x"

text \<open>
  The round constants are the first 32 bits of the fractional parts of the cube roots
  of the first 64 primes, the initial state those of the square roots of the first 8;
  both are written in decimal.
\<close>

definition K256 :: "w32 list" where
  "K256 =
   [1116352408, 1899447441, 3049323471, 3921009573, 961987163, 1508970993, 2453635748, 2870763221,
    3624381080, 310598401, 607225278, 1426881987, 1925078388, 2162078206, 2614888103, 3248222580,
    3835390401, 4022224774, 264347078, 604807628, 770255983, 1249150122, 1555081692, 1996064986,
    2554220882, 2821834349, 2952996808, 3210313671, 3336571891, 3584528711, 113926993, 338241895,
    666307205, 773529912, 1294757372, 1396182291, 1695183700, 1986661051, 2177026350, 2456956037,
    2730485921, 2820302411, 3259730800, 3345764771, 3516065817, 3600352804, 4094571909, 275423344,
    430227734, 506948616, 659060556, 883997877, 958139571, 1322822218, 1537002063, 1747873779,
    1955562222, 2024104815, 2227730452, 2361852424, 2428436474, 2756734187, 3204031479, 3329325298]"

type_synonym sha_state = "w32 \<times> w32 \<times> w32 \<times> w32 \<times> w32 \<times> w32 \<times> w32 \<times> w32"

definition H256 :: sha_state where
  "H256 = (1779033703, 3144134277, 1013904242, 2773480762,
           1359893119, 2600822924, 528734635, 1541459225)"

fun be32 :: "bytes \<Rightarrow> w32 list" where
  "be32 (a # b # c # d # rest) =
     (push_bit 24 (ucast a) OR push_bit 16 (ucast b) OR push_bit 8 (ucast c) OR ucast d) # be32 rest"
| "be32 _ = []"

fun schedule :: "nat \<Rightarrow> w32 list \<Rightarrow> w32 list" where
  "schedule 0 w = w"
| "schedule (Suc n) w =
     (let t = length w
      in schedule n (w @ [ssig1 (w ! (t - 2)) + w ! (t - 7) + ssig0 (w ! (t - 15)) + w ! (t - 16)]))"

fun sha_round :: "sha_state \<Rightarrow> w32 \<times> w32 \<Rightarrow> sha_state" where
  "sha_round (a, b, c, d, e, f, g, h) (k, w) =
     (let t1 = h + bsig1 e + Ch e f g + k + w;
          t2 = bsig0 a + Maj a b c
      in (t1 + t2, a, b, c, d + t1, e, f, g))"

fun compress :: "sha_state \<Rightarrow> bytes \<Rightarrow> sha_state" where
  "compress (a, b, c, d, e, f, g, h) block =
     (case foldl sha_round (a, b, c, d, e, f, g, h) (zip K256 (schedule 48 (be32 block))) of
        (a', b', c', d', e', f', g', h') \<Rightarrow>
          (a + a', b + b', c + c', d + d', e + e', f + f', g + g', h + h'))"

definition be64 :: "nat \<Rightarrow> bytes" where
  "be64 n = (let w = (word_of_nat n :: 64 word)
             in map (\<lambda>i. ucast (drop_bit (8 * i) w)) [7, 6, 5, 4, 3, 2, 1, 0])"

definition sha_pad :: "bytes \<Rightarrow> bytes" where
  "sha_pad m = m @ [0x80] @ replicate ((119 - length m mod 64) mod 64) 0 @ be64 (8 * length m)"

fun blocks :: "bytes \<Rightarrow> bytes list" where
  "blocks bs = (if length bs < 64 then [] else take 64 bs # blocks (drop 64 bs))"

definition word_bytes :: "w32 \<Rightarrow> bytes" where
  "word_bytes w = [ucast (drop_bit 24 w), ucast (drop_bit 16 w), ucast (drop_bit 8 w), ucast w]"

fun state_bytes :: "sha_state \<Rightarrow> bytes" where
  "state_bytes (a, b, c, d, e, f, g, h) = concat (map word_bytes [a, b, c, d, e, f, g, h])"

definition sha256 :: "bytes \<Rightarrow> bytes" where
  "sha256 m = state_bytes (foldl compress H256 (blocks (sha_pad m)))"

definition hmac_sha256 :: "bytes \<Rightarrow> bytes \<Rightarrow> bytes" where
  "hmac_sha256 key msg =
     (let k0 = (if length key > 64 then sha256 key else key);
          k = k0 @ replicate (64 - length k0) 0
      in sha256 (map (\<lambda>b. b XOR 0x5c) k @ sha256 (map (\<lambda>b. b XOR 0x36) k @ msg)))"

text \<open>\<^verbatim>\<open>.hexdigest()\<close>: two lower-case hexadecimal digits per byte.\<close>

definition hex_digit :: "nat \<Rightarrow> char" where
  "hex_digit n = ''0123456789abcdef'' ! (n mod 16)"

definition hexdigest :: "bytes \<Rightarrow> string" where
  "hexdigest bs = concat (map (\<lambda>b. [hex_digit (unat b div 16), hex_digit (unat b)]) bs)"

text \<open>\<^verbatim>\<open>s.encode('utf-8')\<close> on code points below 256: one byte below 128, two above.\<close>

definition utf8_char :: "char \<Rightarrow> bytes" where
  "utf8_char c =
     (let n = (of_char c :: nat)
      in if n < 128 then [word_of_nat n]
         else [0xC0 OR word_of_nat (n div 64), 0x80 OR word_of_nat (n mod 64)])"

definition utf8 :: "string \<Rightarrow> bytes" where
  "utf8 s = concat (map utf8_char s)"

section \<open>Signature verification\<close>

text \<open>
  \<^verbatim>\<open>hmac.compare_digest(a, b)\<close> on two \<^verbatim>\<open>str\<close> arguments raises \<^verbatim>\<open>TypeError\<close> unless
  both are ASCII; otherwise it is equality (in constant time, which the model does not
  observe).
\<close>

definition is_ascii :: "char \<Rightarrow> bool" where
  "is_ascii c = ((of_char c :: nat) < 128)"

definition compare_digest :: "string \<Rightarrow> string \<Rightarrow> exn + bool" where
  "compare_digest a b =
     (if list_all is_ascii a \<and> list_all is_ascii b then Inr (a = b) else Inl TypeError)"

text \<open>
  \<^verbatim>\<open>verify_webhook_signature\<close> (app.py, lines 116 to 138). The secret comes from
  \<^verbatim>\<open>os.getenv\<close>, so it is \<open>None\<close> when the variable is unset.
\<close>

definition verify_webhook_signature :: "bytes \<Rightarrow> string \<Rightarrow> string option \<Rightarrow> exn + bool" where
  "verify_webhook_signature payload signature secret =
     (case secret of
        None \<Rightarrow> Inr True
      | Some s \<Rightarrow>
          if s = [] then Inr True
          else compare_digest (hexdigest (hmac_sha256 (utf8 s) payload)) signature)"

section \<open>The Instapaper client\<close>

text \<open>
  The world outside is the one call \<^verbatim>\<open>requests.post(INSTAPAPER_ADD_URL, data=data, timeout=30)\<close>.
  It either returns a response, of which the program reads the status code (headers and
  text are only logged), or raises. The model threads the list of the calls made so
  far, oldest first; what the service answers may depend on that history and on the
  form posted.
\<close>

type_synonym form = "(string \<times> json) list"

datatype http_result = Response int | RequestException | OtherException

type_synonym upstream = "form list \<Rightarrow> form \<Rightarrow> http_result"

record InstapaperClient =
  username :: string
  password :: string

text \<open>
  \<^verbatim>\<open>add_article\<close> (lines 51 to 113) has seven exits, each with its own log line. \<open>outcome\<close>
  names the exit taken, \<open>returns\<close> is the boolean that exit returns.
\<close>

datatype SaveOutcome =
    Saved
  | AuthFailed
  | BadRequest
  | ServiceUnavailable
  | UnexpectedStatus
  | TransportError
  | UnexpectedError

fun outcome :: "http_result \<Rightarrow> SaveOutcome" where
  "outcome (Response status_code) =
     (if status_code = 201 then Saved
      else if status_code = 403 then AuthFailed
      else if status_code = 400 then BadRequest
      else if status_code = 500 then ServiceUnavailable
      else UnexpectedStatus)"
| "outcome RequestException = TransportError"
| "outcome OtherException = UnexpectedError"

fun returns :: "SaveOutcome \<Rightarrow> bool" where
  "returns Saved = True"
| "returns AuthFailed = False"
| "returns BadRequest = False"
| "returns ServiceUnavailable = False"
| "returns UnexpectedStatus = False"
| "returns TransportError = False"
| "returns UnexpectedError = False"

definition form_data :: "InstapaperClient \<Rightarrow> json \<Rightarrow> json \<Rightarrow> string option \<Rightarrow> form" where
  "form_data self url title selection =
     [(''username'', JStr (username self)), (''password'', JStr (password self)), (''url'', url)]
     @ (if truthy title then [(''title'', title)] else [])
     @ (case selection of
          None \<Rightarrow> []
        | Some s \<Rightarrow> if s \<noteq> [] then [(''selection'', JStr s)] else [])"

definition add_article_outcome ::
  "upstream \<Rightarrow> InstapaperClient \<Rightarrow> json \<Rightarrow> json \<Rightarrow> string option \<Rightarrow> form list \<Rightarrow> SaveOutcome" where
  "add_article_outcome up self url title selection calls =
     outcome (up calls (form_data self url title selection))"

definition add_article ::
  "upstream \<Rightarrow> InstapaperClient \<Rightarrow> json \<Rightarrow> json \<Rightarrow> string option \<Rightarrow> form list
     \<Rightarrow> bool \<times> form list" where
  "add_article up self url title selection calls =
     (returns (add_article_outcome up self url title selection calls),
      calls @ [form_data self url title selection])"

section \<open>Entries\<close>

text \<open>
  The call \<^verbatim>\<open>re.sub(r'<[^>]+>', '', content)\<close> scans from the left. A match starts at an
  opening angle bracket that is followed by at least one character other than the
  closing bracket, and ends at the first closing bracket after that; the scan goes on
  behind the match. The class also matches line breaks and opening brackets. An opening
  bracket where no match starts is kept.
\<close>

function strip_tags :: "string \<Rightarrow> string" where
  "strip_tags [] = []"
| "strip_tags (c # cs) =
     (if c = CHR ''<'' then
        (case cs of
           [] \<Rightarrow> [c]
         | x # xs \<Rightarrow>
             if x = CHR ''>'' then c # strip_tags cs
             else (case dropWhile (\<lambda>y. y \<noteq> CHR ''>'') xs of
                     [] \<Rightarrow> c # strip_tags cs
                   | y # rest \<Rightarrow> strip_tags rest))
      else c # strip_tags cs)"
  by pat_completeness auto
termination
proof (relation "measure length")
  fix c :: char and cs x xs y rest
  assume "dropWhile (\<lambda>y. y \<noteq> CHR ''>'') xs = y # rest" and "cs = x # xs"
  then have "length (y # rest) \<le> length xs"
    using length_dropWhile_le [of "\<lambda>y. y \<noteq> CHR ''>''" xs] by simp
  then show "(rest, c # cs) \<in> measure length"
    using \<open>cs = x # xs\<close> by simp
qed auto

text \<open>
  The block that \<^verbatim>\<open>process_new_entries\<close> (lines 169 to 177) and \<^verbatim>\<open>process_saved_entry\<close>
  (lines 223 to 230) both contain, word for word. \<^verbatim>\<open>re.sub\<close> raises \<^verbatim>\<open>TypeError\<close> on a
  value that is no string.
\<close>

definition description_of :: "json \<Rightarrow> exn + string option" where
  "description_of content =
     (if truthy content then
        (case content of
           JStr s \<Rightarrow>
             (let text_content = strip_tags s
              in Inr (Some (if length text_content > 200 then take 200 text_content @ ''...''
                            else text_content)))
         | _ \<Rightarrow> Inl TypeError)
      else Inr None)"

text \<open>Sequencing of a step that may raise, with the calls made so far.\<close>

definition and_then ::
  "exn + 'a \<Rightarrow> form list \<Rightarrow> ('a \<Rightarrow> (exn + 'b) \<times> form list) \<Rightarrow> (exn + 'b) \<times> form list" where
  "and_then r calls k = (case r of Inl e \<Rightarrow> (Inl e, calls) | Inr v \<Rightarrow> k v)"

record config =
  MINIFLUX_WEBHOOK_SECRET :: "string option"
  INSTAPAPER_USERNAME :: "string option"
  INSTAPAPER_PASSWORD :: string

text \<open>
  \<^verbatim>\<open>process_new_entries\<close> (lines 141 to 194). \<open>try_entry\<close> is the body of the
  \<^verbatim>\<open>try\<close> for one entry: \<open>Inr True\<close> when the entry is counted, \<open>Inr False\<close> when it
  is skipped or the save fails, \<open>Inl\<close> when the body raises. \<open>entries_loop\<close> is the
  \<^verbatim>\<open>for\<close> with its \<^verbatim>\<open>except\<close> clause, whose log line reads \<^verbatim>\<open>entry.get('id', 'unknown')\<close>
  and so can raise in turn; that exception leaves the function.
\<close>

definition try_entry ::
  "upstream \<Rightarrow> InstapaperClient \<Rightarrow> json \<Rightarrow> form list \<Rightarrow> (exn + bool) \<times> form list" where
  "try_entry up instapaper entry calls =
     and_then (py_get entry ''url'' JNull) calls (\<lambda>url.
     and_then (py_get entry ''title'' (JStr [])) calls (\<lambda>title.
     and_then (py_get entry ''content'' (JStr [])) calls (\<lambda>content.
       if \<not> truthy url then (Inr False, calls)
       else
         and_then (description_of content) calls (\<lambda>description.
           (case add_article up instapaper url title description calls of
              (success, calls') \<Rightarrow> (Inr success, calls'))))))"

fun entries_loop ::
  "upstream \<Rightarrow> InstapaperClient \<Rightarrow> json list \<Rightarrow> int \<Rightarrow> form list \<Rightarrow> (exn + int) \<times> form list" where
  "entries_loop up instapaper [] processed_count calls = (Inr processed_count, calls)"
| "entries_loop up instapaper (entry # rest) processed_count calls =
     (case try_entry up instapaper entry calls of
        (Inr success, calls') \<Rightarrow>
          entries_loop up instapaper rest
            (if success then processed_count + 1 else processed_count) calls'
      | (Inl e, calls') \<Rightarrow>
          (case py_get entry ''id'' (JStr ''unknown'') of
             Inl e' \<Rightarrow> (Inl e', calls')
           | Inr i \<Rightarrow> entries_loop up instapaper rest processed_count calls'))"

definition process_new_entries ::
  "config \<Rightarrow> upstream \<Rightarrow> json \<Rightarrow> form list \<Rightarrow> (exn + int) \<times> form list" where
  "process_new_entries cfg up entries calls =
     (case INSTAPAPER_USERNAME cfg of
        None \<Rightarrow> (Inr 0, calls)
      | Some u \<Rightarrow>
          if u = [] then (Inr 0, calls)
          else
            and_then (py_iter entries) calls (\<lambda>es.
              entries_loop up \<lparr>username = u, password = INSTAPAPER_PASSWORD cfg\<rparr> es 0 calls))"

text \<open>
  \<^verbatim>\<open>process_saved_entry\<close> (lines 197 to 253). \<open>try_saved\<close> is the body of its \<^verbatim>\<open>try\<close>.
\<close>

definition try_saved ::
  "upstream \<Rightarrow> InstapaperClient \<Rightarrow> json \<Rightarrow> form list \<Rightarrow> (exn + bool) \<times> form list" where
  "try_saved up instapaper entry calls =
     and_then (py_get entry ''url'' JNull) calls (\<lambda>url.
     and_then (py_get entry ''title'' (JStr [])) calls (\<lambda>title.
     and_then (py_get entry ''content'' (JStr [])) calls (\<lambda>content.
       if \<not> truthy url then (Inr False, calls)
       else
         and_then (description_of content) calls (\<lambda>description.
           (let description' =
              (case description of
                 None \<Rightarrow> ''[Saved from Miniflux]''
               | Some d \<Rightarrow>
                   if d \<noteq> [] then ''[Saved from Miniflux] '' @ d else ''[Saved from Miniflux]'')
            in case add_article up instapaper url title (Some description') calls of
                 (success, calls') \<Rightarrow> (Inr success, calls'))))))"

definition process_saved_entry ::
  "config \<Rightarrow> upstream \<Rightarrow> json \<Rightarrow> form list \<Rightarrow> (exn + bool) \<times> form list" where
  "process_saved_entry cfg up entry calls =
     (case INSTAPAPER_USERNAME cfg of
        None \<Rightarrow> (Inr False, calls)
      | Some u \<Rightarrow>
          if u = [] then (Inr False, calls)
          else
            (case try_saved up \<lparr>username = u, password = INSTAPAPER_PASSWORD cfg\<rparr> entry calls of
               (Inr success, calls') \<Rightarrow> (Inr success, calls')
             | (Inl e, calls') \<Rightarrow>
                 (case py_get entry ''id'' (JStr ''unknown'') of
                    Inl e' \<Rightarrow> (Inl e', calls')
                  | Inr i \<Rightarrow> (Inr False, calls'))))"

section \<open>The webhook handler\<close>

text \<open>
  A request, as the handler reads it: the two headers (absent ones default to the
  empty string), the raw body, and what \<^verbatim>\<open>request.get_json()\<close> does on it: it returns
  the decoded document (\<open>JNull\<close> for Python's \<^verbatim>\<open>None\<close>) or raises. A response is the
  JSON document given to \<^verbatim>\<open>jsonify\<close> and the status code, 200 where the source names
  none.
\<close>

record request =
  signature_header :: "string option"
  event_type_header :: "string option"
  get_data :: bytes
  get_json :: "unit + json"

record response =
  body :: json
  status_code :: nat

definition header :: "string option \<Rightarrow> string" where
  "header h = (case h of None \<Rightarrow> [] | Some v \<Rightarrow> v)"

definition respond :: "json \<Rightarrow> nat \<Rightarrow> form list \<Rightarrow> (exn + response) \<times> form list" where
  "respond b code calls = (Inr \<lparr>body = b, status_code = code\<rparr>, calls)"

text \<open>The three branches of the routing (lines 296 to 332).\<close>

definition route_new_entries ::
  "config \<Rightarrow> upstream \<Rightarrow> string \<Rightarrow> json \<Rightarrow> form list \<Rightarrow> (exn + response) \<times> form list" where
  "route_new_entries cfg up event_type data calls =
     and_then (py_get data ''entries'' (JArr [])) calls (\<lambda>entries.
     and_then (py_get data ''feed'' (JObj [])) calls (\<lambda>feed.
     and_then (py_get feed ''title'' (JStr ''Unknown feed'')) calls (\<lambda>feed_title.
     and_then (py_len entries) calls (\<lambda>entries_received.
       (case process_new_entries cfg up entries calls of
          (r, calls') \<Rightarrow>
            and_then r calls' (\<lambda>processed_count.
              respond (JObj [(''status'', JStr ''success''),
                             (''event_type'', JStr event_type),
                             (''entries_received'', JInt entries_received),
                             (''entries_processed'', JInt processed_count),
                             (''feed'', feed_title)]) 200 calls'))))))"

definition route_save_entry ::
  "config \<Rightarrow> upstream \<Rightarrow> string \<Rightarrow> json \<Rightarrow> form list \<Rightarrow> (exn + response) \<times> form list" where
  "route_save_entry cfg up event_type data calls =
     and_then (py_get data ''entry'' (JObj [])) calls (\<lambda>entry.
     and_then (py_get entry ''title'' (JStr ''Unknown title'')) calls (\<lambda>entry_title.
       (case process_saved_entry cfg up entry calls of
          (r, calls') \<Rightarrow>
            and_then r calls' (\<lambda>success.
              respond (JObj [(''status'', JStr (if success then ''success'' else ''error'')),
                             (''event_type'', JStr event_type),
                             (''entry_processed'', JBool success),
                             (''entry_title'', entry_title)]) 200 calls'))))"

definition route_other :: "string \<Rightarrow> form list \<Rightarrow> (exn + response) \<times> form list" where
  "route_other event_type calls =
     respond (JObj [(''status'', JStr ''ignored''),
                    (''event_type'', JStr event_type),
                    (''message'', JStr ''Event type not supported'')]) 200 calls"

text \<open>
  The body of the handler's \<^verbatim>\<open>try\<close> (lines 268 to 332), and the handler with its
  \<^verbatim>\<open>except\<close> clause (lines 334 to 336).
\<close>

definition signature_gate :: "config \<Rightarrow> request \<Rightarrow> exn + bool" where
  "signature_gate cfg req =
     (case MINIFLUX_WEBHOOK_SECRET cfg of
        None \<Rightarrow> Inr True
      | Some s \<Rightarrow>
          if s = [] then Inr True
          else verify_webhook_signature (get_data req) (header (signature_header req)) (Some s))"

definition try_webhook ::
  "config \<Rightarrow> upstream \<Rightarrow> request \<Rightarrow> form list \<Rightarrow> (exn + response) \<times> form list" where
  "try_webhook cfg up req calls =
     (let event_type = header (event_type_header req)
      in and_then (signature_gate cfg req) calls (\<lambda>valid.
           if \<not> valid then respond (JObj [(''error'', JStr ''Invalid signature'')]) 403 calls
           else
             (case get_json req of
                Inl u \<Rightarrow> respond (JObj [(''error'', JStr ''Invalid JSON'')]) 400 calls
              | Inr data \<Rightarrow>
                  if \<not> truthy data then respond (JObj [(''error'', JStr ''Empty payload'')]) 400 calls
                  else if event_type = ''new_entries'' then route_new_entries cfg up event_type data calls
                  else if event_type = ''save_entry'' then route_save_entry cfg up event_type data calls
                  else route_other event_type calls)))"

definition webhook_handler ::
  "config \<Rightarrow> upstream \<Rightarrow> request \<Rightarrow> form list \<Rightarrow> response \<times> form list" where
  "webhook_handler cfg up req calls =
     (case try_webhook cfg up req calls of
        (Inr resp, calls') \<Rightarrow> (resp, calls')
      | (Inl e, calls') \<Rightarrow>
          (\<lparr>body = JObj [(''error'', JStr ''Internal server error'')], status_code = 500\<rparr>, calls'))"

section \<open>Notions used in the statements\<close>

text \<open>
  A tag is a string that the pattern matches as a whole: an opening bracket, one or more
  characters other than the closing bracket, a closing bracket. A string has a tag when
  one of its contiguous substrings is a tag.
\<close>

definition is_tag :: "string \<Rightarrow> bool" where
  "is_tag t =
     (case t of
        [] \<Rightarrow> False
      | c # r \<Rightarrow>
          c = CHR ''<'' \<and> r \<noteq> [] \<and> last r = CHR ''>'' \<and> butlast r \<noteq> []
          \<and> CHR ''>'' \<notin> set (butlast r))"

definition has_tag :: "string \<Rightarrow> bool" where
  "has_tag s = list_ex is_tag (sublists s)"

text \<open>
  A tag starts at the front of a string when one of its prefixes is a tag. In
  \<open>a @ t @ b\<close> the tag \<open>t\<close> is the leftmost one when no tag starts at a position
  inside \<open>a\<close>: it is the first match that a scan from the left finds.
\<close>

definition starts_tag :: "string \<Rightarrow> bool" where
  "starts_tag s = list_ex is_tag (prefixes s)"

definition leftmost_tag :: "string \<Rightarrow> string \<Rightarrow> string \<Rightarrow> bool" where
  "leftmost_tag a t b =
     (is_tag t \<and> \<not> list_ex (\<lambda>i. starts_tag (drop i (a @ t @ b))) [0..<length a])"

text \<open>A tag can start in front of \<open>cs\<close>: some other character, and a closing bracket later.\<close>

definition opens :: "string \<Rightarrow> bool" where
  "opens cs = (case cs of [] \<Rightarrow> False | x # xs \<Rightarrow> x \<noteq> CHR ''>'' \<and> CHR ''>'' \<in> set xs)"


definition selection_of :: "form \<Rightarrow> json option" where
  "selection_of f = map_of f ''selection''"

fun is_object :: "json \<Rightarrow> bool" where
  "is_object (JObj kvs) = True"
| "is_object _ = False"

text \<open>
  The batch as the specification words it: the entries one after the other in payload
  order, each handled on its own, so that whatever goes wrong with one (it is skipped,
  the save fails, or its handling raises) leaves the others to be handled; the count is
  the number of entries whose save succeeded. \<open>isolated_batch\<close> returns that count and
  the calls made.
\<close>

fun isolated_batch :: "upstream \<Rightarrow> InstapaperClient \<Rightarrow> json list \<Rightarrow> form list \<Rightarrow> int \<times> form list" where
  "isolated_batch up instapaper [] calls = (0, calls)"
| "isolated_batch up instapaper (entry # rest) calls =
     (case try_entry up instapaper entry calls of
        (r, calls') \<Rightarrow>
          (case isolated_batch up instapaper rest calls' of
             (n, calls'') \<Rightarrow> ((if r = Inr True then 1 else 0) + n, calls'')))"

text \<open>
  Concrete cases: an upstream that gives the same answer to every call, a configuration
  with a user name and no secret, the same with a secret, and a request without
  signature header that carries a given event type and decoded document.
\<close>

definition answering :: "http_result \<Rightarrow> upstream" where
  "answering r calls f = r"

definition reader_config :: config where
  "reader_config =
     \<lparr>MINIFLUX_WEBHOOK_SECRET = None, INSTAPAPER_USERNAME = Some ''reader'',
       INSTAPAPER_PASSWORD = []\<rparr>"

definition signed_config :: config where
  "signed_config =
     \<lparr>MINIFLUX_WEBHOOK_SECRET = Some ''s3cret'', INSTAPAPER_USERNAME = Some ''reader'',
       INSTAPAPER_PASSWORD = []\<rparr>"

definition request_with :: "string \<Rightarrow> unit + json \<Rightarrow> request" where
  "request_with event_type decoded =
     \<lparr>signature_header = None, event_type_header = Some event_type, get_data = [],
       get_json = decoded\<rparr>"

section \<open>Tag stripping\<close>

lemma is_tag_iff:
  "is_tag t \<longleftrightarrow> (\<exists>m. t = CHR ''<'' # m @ [CHR ''>''] \<and> m \<noteq> [] \<and> CHR ''>'' \<notin> set m)"
proof
  assume "is_tag t"
  then obtain r where t: "t = CHR ''<'' # r" and r: "r \<noteq> []" "last r = CHR ''>''"
      "butlast r \<noteq> []" "CHR ''>'' \<notin> set (butlast r)"
    by (auto simp: is_tag_def split: list.splits)
  from r(1,2) have "r = butlast r @ [CHR ''>'']"
    by (metis append_butlast_last_id)
  with t r show "\<exists>m. t = CHR ''<'' # m @ [CHR ''>''] \<and> m \<noteq> [] \<and> CHR ''>'' \<notin> set m"
    by metis
next
  assume "\<exists>m. t = CHR ''<'' # m @ [CHR ''>''] \<and> m \<noteq> [] \<and> CHR ''>'' \<notin> set m"
  then show "is_tag t"
    by (auto simp: is_tag_def)
qed

lemma has_tag_Nil: "\<not> has_tag []"
  by (simp add: has_tag_def is_tag_def)

lemma has_tag_sublist: "has_tag s \<longleftrightarrow> (\<exists>t. sublist t s \<and> is_tag t)"
  by (auto simp: has_tag_def list_ex_iff)

lemma tag_prefix_iff:
  "(\<exists>t. prefix t (c # cs) \<and> is_tag t) \<longleftrightarrow> c = CHR ''<'' \<and> opens cs"
proof
  assume "\<exists>t. prefix t (c # cs) \<and> is_tag t"
  then obtain m z where "c # cs = (CHR ''<'' # m @ [CHR ''>'']) @ z" "m \<noteq> []" "CHR ''>'' \<notin> set m"
    by (auto simp: is_tag_iff prefix_def)
  then show "c = CHR ''<'' \<and> opens cs"
    by (cases m) (auto simp: opens_def)
next
  assume a: "c = CHR ''<'' \<and> opens cs"
  then obtain x xs where cs: "cs = x # xs" "x \<noteq> CHR ''>''" "CHR ''>'' \<in> set xs"
    by (auto simp: opens_def split: list.splits)
  let ?m = "x # takeWhile (\<lambda>y. y \<noteq> CHR ''>'') xs"
  have ne: "dropWhile (\<lambda>y. y \<noteq> CHR ''>'') xs \<noteq> []"
    using cs(3) by (simp add: dropWhile_eq_Nil_conv)
  then have "hd (dropWhile (\<lambda>y. y \<noteq> CHR ''>'') xs) = CHR ''>''"
    using hd_dropWhile [of "\<lambda>y. y \<noteq> CHR ''>''" xs] by simp
  with ne obtain rest where d: "dropWhile (\<lambda>y. y \<noteq> CHR ''>'') xs = CHR ''>'' # rest"
    by (cases "dropWhile (\<lambda>y. y \<noteq> CHR ''>'') xs") auto
  have "xs = takeWhile (\<lambda>y. y \<noteq> CHR ''>'') xs @ CHR ''>'' # rest"
    using takeWhile_dropWhile_id [of "\<lambda>y. y \<noteq> CHR ''>''" xs] d by simp
  then have "c # cs = (CHR ''<'' # ?m @ [CHR ''>'']) @ rest"
    using a cs by simp
  then have "prefix (CHR ''<'' # ?m @ [CHR ''>'']) (c # cs)"
    unfolding prefix_def by blast
  moreover have "is_tag (CHR ''<'' # ?m @ [CHR ''>''])"
    unfolding is_tag_iff using cs(2) by (auto dest: set_takeWhileD)
  ultimately show "\<exists>t. prefix t (c # cs) \<and> is_tag t" by blast
qed

lemma has_tag_Cons: "has_tag (c # cs) \<longleftrightarrow> (c = CHR ''<'' \<and> opens cs) \<or> has_tag cs"
  unfolding has_tag_sublist sublist_Cons_right using tag_prefix_iff [of c cs] by blast


declare strip_tags.simps(2) [simp del]

lemma strip_other: "c \<noteq> CHR ''<'' \<Longrightarrow> strip_tags (c # cs) = c # strip_tags cs"
  by (simp add: strip_tags.simps(2))

lemma strip_last: "strip_tags [CHR ''<''] = [CHR ''<'']"
  by (simp add: strip_tags.simps(2))

lemma strip_empty_pair: "strip_tags (CHR ''<'' # CHR ''>'' # xs) = CHR ''<'' # strip_tags (CHR ''>'' # xs)"
  by (simp add: strip_tags.simps(2) [of "CHR ''<''"])

lemma strip_unclosed:
  "x \<noteq> CHR ''>'' \<Longrightarrow> CHR ''>'' \<notin> set xs \<Longrightarrow>
   strip_tags (CHR ''<'' # x # xs) = CHR ''<'' # strip_tags (x # xs)"
proof -
  assume x: "x \<noteq> CHR ''>''" and "CHR ''>'' \<notin> set xs"
  then have d: "dropWhile (\<lambda>y. y \<noteq> CHR ''>'') xs = []"
    by auto
  show ?thesis
    by (subst strip_tags.simps(2)) (simp add: x d)
qed

lemma strip_tag:
  "x \<noteq> CHR ''>'' \<Longrightarrow> CHR ''>'' \<notin> set m \<Longrightarrow>
   strip_tags (CHR ''<'' # x # m @ CHR ''>'' # rest) = strip_tags rest"
proof -
  assume x: "x \<noteq> CHR ''>''" and "CHR ''>'' \<notin> set m"
  then have "\<forall>y\<in>set m. y \<noteq> CHR ''>''"
    by auto
  then have d: "dropWhile (\<lambda>y. y \<noteq> CHR ''>'') (m @ CHR ''>'' # rest) = CHR ''>'' # rest"
    by (simp add: dropWhile_append2)
  show ?thesis
    by (subst strip_tags.simps(2)) (simp add: x d)
qed

lemma strip_tags_cases [case_names Nil Other Last EmptyPair Unclosed Tag]:
  assumes "P []"
    and "\<And>c cs. c \<noteq> CHR ''<'' \<Longrightarrow> P cs \<Longrightarrow> P (c # cs)"
    and "P [CHR ''<'']"
    and "\<And>xs. P (CHR ''>'' # xs) \<Longrightarrow> P (CHR ''<'' # CHR ''>'' # xs)"
    and "\<And>x xs. x \<noteq> CHR ''>'' \<Longrightarrow> CHR ''>'' \<notin> set xs \<Longrightarrow> P (x # xs) \<Longrightarrow> P (CHR ''<'' # x # xs)"
    and "\<And>x m rest. x \<noteq> CHR ''>'' \<Longrightarrow> CHR ''>'' \<notin> set m \<Longrightarrow> P rest \<Longrightarrow>
           P (CHR ''<'' # x # m @ CHR ''>'' # rest)"
  shows "P s"
proof (induction s rule: strip_tags.induct)
  case 1
  show ?case by (rule assms(1))
next
  case (2 c cs)
  show ?case
  proof (cases "c = CHR ''<''")
    case False
    with 2 show ?thesis by (intro assms(2)) simp_all
  next
    case lt: True
    show ?thesis
    proof (cases cs)
      case Nil
      with lt show ?thesis by (simp add: assms(3))
    next
      case (Cons x xs)
      show ?thesis
      proof (cases "x = CHR ''>''")
        case True
        have "P cs" using 2 lt Cons True by simp
        then show ?thesis using lt Cons True assms(4) by simp
      next
        case False
        show ?thesis
        proof (cases "dropWhile (\<lambda>y. y \<noteq> CHR ''>'') xs")
          case Nil
          have "P cs" using 2 lt Cons False Nil by simp
          moreover have "CHR ''>'' \<notin> set xs" using Nil by auto
          ultimately show ?thesis using lt Cons False assms(5) by simp
        next
          case d: (Cons y rest)
          have "P rest" using 2 lt Cons False d by simp
          moreover have "y = CHR ''>''"
            using hd_dropWhile [of "\<lambda>y. y \<noteq> CHR ''>''" xs] d by simp
          moreover have "xs = takeWhile (\<lambda>y. y \<noteq> CHR ''>'') xs @ y # rest"
            using takeWhile_dropWhile_id [of "\<lambda>y. y \<noteq> CHR ''>''" xs] d by simp
          moreover have "CHR ''>'' \<notin> set (takeWhile (\<lambda>y. y \<noteq> CHR ''>'') xs)"
            by (auto dest: set_takeWhileD)
          ultimately show ?thesis
            using lt Cons False assms(6) [of x "takeWhile (\<lambda>y. y \<noteq> CHR ''>'') xs" rest] by simp
        qed
      qed
    qed
  qed
qed

lemma subseq_strip_tags: "subseq (strip_tags s) s"
proof (induction s rule: strip_tags_cases)
  case (Tag x m rest)
  have "suffix rest (CHR ''<'' # x # m @ CHR ''>'' # rest)"
    unfolding suffix_def by (rule exI [of _ "CHR ''<'' # x # m @ [CHR ''>'']"]) simp
  then have "subseq rest (CHR ''<'' # x # m @ CHR ''>'' # rest)"
    by (rule suffix_imp_subseq)
  with Tag(3) have "subseq (strip_tags rest) (CHR ''<'' # x # m @ CHR ''>'' # rest)"
    by (rule subseq_order.order_trans)
  then show ?case using Tag(1,2) by (simp add: strip_tag)
qed (simp_all add: strip_other strip_last strip_empty_pair strip_unclosed)

lemma set_strip_tags: "set (strip_tags s) \<subseteq> set s"
proof
  fix x assume "x \<in> set (strip_tags s)"
  with list_emb_set [OF subseq_strip_tags [of s]] show "x \<in> set s" by auto
qed

lemma opens_Cons: "opens (x # xs) \<longleftrightarrow> x \<noteq> CHR ''>'' \<and> CHR ''>'' \<in> set xs"
  by (simp add: opens_def)

lemma opens_strip: "opens (strip_tags (x # xs)) \<Longrightarrow> CHR ''>'' \<in> set (x # xs)"
proof -
  assume "opens (strip_tags (x # xs))"
  then have "CHR ''>'' \<in> set (strip_tags (x # xs))"
    by (auto simp: opens_def split: list.splits)
  then show ?thesis using set_strip_tags [of "x # xs"] by blast
qed

lemma no_tag_strip_tags: "\<not> has_tag (strip_tags s)"
proof (induction s rule: strip_tags_cases)
  case Nil
  show ?case by (simp add: has_tag_Nil)
next
  case (Other c cs)
  then show ?case by (simp add: strip_other has_tag_Cons)
next
  case Last
  show ?case by (simp add: strip_last has_tag_Cons has_tag_Nil opens_def)
next
  case (EmptyPair xs)
  then show ?case
    by (simp add: strip_empty_pair has_tag_Cons strip_other opens_Cons)
next
  case (Unclosed x xs)
  have "\<not> opens (strip_tags (x # xs))"
    using opens_strip [of x xs] Unclosed(1,2) by auto
  with Unclosed show ?case
    by (simp add: strip_unclosed has_tag_Cons)
next
  case (Tag x m rest)
  then show ?case by (simp add: strip_tag)
qed

lemma strip_tags_id: "\<not> has_tag s \<Longrightarrow> strip_tags s = s"
proof (induction s rule: strip_tags_cases)
  case (Tag x m rest)
  have "opens (x # m @ CHR ''>'' # rest)"
    using Tag(1) by (simp add: opens_Cons)
  with Tag(4) show ?case by (simp add: has_tag_Cons)
qed (simp_all add: strip_other strip_last strip_empty_pair strip_unclosed has_tag_Cons)

lemma no_bracket_no_tag: "CHR ''<'' \<notin> set s \<Longrightarrow> \<not> has_tag s"
  by (induction s) (auto simp: has_tag_Nil has_tag_Cons)

text \<open>The leftmost tag is removed, and what stands in front of it is kept.\<close>

lemma starts_tag_Nil: "\<not> starts_tag []"
  by (simp add: starts_tag_def is_tag_def)

lemma starts_tag_Cons: "starts_tag (c # cs) \<longleftrightarrow> c = CHR ''<'' \<and> opens cs"
proof -
  have "starts_tag (c # cs) \<longleftrightarrow> (\<exists>t. prefix t (c # cs) \<and> is_tag t)"
    unfolding starts_tag_def list_ex_iff by (metis in_set_prefixes)
  then show ?thesis
    by (simp only: tag_prefix_iff)
qed

lemma strip_no_start: "\<not> starts_tag (c # cs) \<Longrightarrow> strip_tags (c # cs) = c # strip_tags cs"
proof (cases "c = CHR ''<''")
  case False
  then show ?thesis by (simp add: strip_other)
next
  case lt: True
  assume "\<not> starts_tag (c # cs)"
  with lt have no: "\<not> opens cs"
    by (simp add: starts_tag_Cons)
  show ?thesis
  proof (cases cs)
    case Nil
    with lt show ?thesis by (simp add: strip_last)
  next
    case (Cons x xs)
    show ?thesis
    proof (cases "x = CHR ''>''")
      case True
      with lt Cons show ?thesis by (simp add: strip_empty_pair)
    next
      case False
      with no Cons have "CHR ''>'' \<notin> set xs"
        by (simp add: opens_Cons)
      with False lt Cons show ?thesis by (simp add: strip_unclosed)
    qed
  qed
qed

lemma strip_tag_front: "is_tag t \<Longrightarrow> strip_tags (t @ b) = strip_tags b"
proof -
  assume "is_tag t"
  then obtain m where t: "t = CHR ''<'' # m @ [CHR ''>'']" and m: "m \<noteq> []" "CHR ''>'' \<notin> set m"
    unfolding is_tag_iff by blast
  from m obtain x m' where x: "m = x # m'" "x \<noteq> CHR ''>''" "CHR ''>'' \<notin> set m'"
    by (cases m) auto
  show ?thesis
    using strip_tag [OF x(2,3), of b] by (simp add: t x(1))
qed

lemma leftmost_tag_iff:
  "leftmost_tag a t b \<longleftrightarrow> is_tag t \<and> (\<forall>i<length a. \<not> starts_tag (drop i (a @ t @ b)))"
  by (auto simp: leftmost_tag_def list_ex_iff)

lemma leftmost_tag_Cons:
  "leftmost_tag (c # a) t b \<longleftrightarrow> \<not> starts_tag (c # a @ t @ b) \<and> leftmost_tag a t b"
proof -
  have "(\<forall>i<Suc (length a). \<not> starts_tag (drop i (c # a @ t @ b))) \<longleftrightarrow>
        \<not> starts_tag (c # a @ t @ b) \<and> (\<forall>i<length a. \<not> starts_tag (drop i (a @ t @ b)))"
    by (auto simp: less_Suc_eq_0_disj)
  then show ?thesis
    by (auto simp: leftmost_tag_iff)
qed

lemma strip_leftmost: "leftmost_tag a t b \<Longrightarrow> strip_tags (a @ t @ b) = a @ strip_tags b"
proof (induction a)
  case Nil
  then show ?case by (simp add: leftmost_tag_iff strip_tag_front)
next
  case (Cons c a)
  then show ?case by (simp add: leftmost_tag_Cons strip_no_start)
qed

lemma has_tag_leftmost: "has_tag c \<Longrightarrow> \<exists>a t b. c = a @ t @ b \<and> leftmost_tag a t b"
proof (induction c)
  case Nil
  then show ?case by (simp add: has_tag_Nil)
next
  case (Cons x xs)
  show ?case
  proof (cases "starts_tag (x # xs)")
    case True
    then obtain t where "prefix t (x # xs)" "is_tag t"
      unfolding starts_tag_def list_ex_iff by (metis in_set_prefixes)
    then obtain b where "x # xs = [] @ t @ b" "leftmost_tag [] t b"
      by (auto simp: prefix_def leftmost_tag_iff)
    then show ?thesis by blast
  next
    case False
    with Cons.prems have "has_tag xs"
      by (auto simp: has_tag_Cons starts_tag_Cons)
    with Cons.IH obtain a t b where "xs = a @ t @ b" "leftmost_tag a t b"
      by blast
    with False have "x # xs = (x # a) @ t @ b" "leftmost_tag (x # a) t b"
      by (simp_all add: leftmost_tag_Cons)
    then show ?thesis by blast
  qed
qed

section \<open>The outbound call\<close>

lemma returns_outcome: "returns (outcome r) \<longleftrightarrow> r = Response 201"
  by (cases r) simp_all

lemma returns_Saved: "returns out \<longleftrightarrow> out = Saved"
  by (cases out) simp_all

text \<open>
  Claim C1. Whatever the upstream answers to the form that \<^verbatim>\<open>add_article\<close> posts, the exit
  taken is fixed by the status code: 201 is \<open>Saved\<close>, 403 \<open>AuthFailed\<close>, 400
  \<open>BadRequest\<close>, 500 \<open>ServiceUnavailable\<close>, every other code \<open>UnexpectedStatus\<close>; a
  transport failure (\<^verbatim>\<open>requests.exceptions.RequestException\<close>) is caught and is
  \<open>TransportError\<close>. The call returns a boolean in every case, and that boolean is true
  exactly when the status is 201, which is exactly when the outcome is \<open>Saved\<close>.
\<close>

theorem add_article_status:
  assumes "up calls (form_data self url title selection) = r"
  shows "(r = Response 201 \<longrightarrow> add_article_outcome up self url title selection calls = Saved) \<and>
         (r = Response 403 \<longrightarrow> add_article_outcome up self url title selection calls = AuthFailed) \<and>
         (r = Response 400 \<longrightarrow> add_article_outcome up self url title selection calls = BadRequest) \<and>
         (r = Response 500 \<longrightarrow>
            add_article_outcome up self url title selection calls = ServiceUnavailable) \<and>
         (\<forall>s. r = Response s \<and> s \<noteq> 201 \<and> s \<noteq> 403 \<and> s \<noteq> 400 \<and> s \<noteq> 500 \<longrightarrow>
            add_article_outcome up self url title selection calls = UnexpectedStatus) \<and>
         (r = RequestException \<longrightarrow>
            add_article_outcome up self url title selection calls = TransportError) \<and>
         (fst (add_article up self url title selection calls) \<longleftrightarrow> r = Response 201) \<and>
         (fst (add_article up self url title selection calls) \<longleftrightarrow>
            add_article_outcome up self url title selection calls = Saved)"
proof -
  have o: "add_article_outcome up self url title selection calls = outcome r"
    using assms by (simp add: add_article_outcome_def)
  have f: "fst (add_article up self url title selection calls) = returns (outcome r)"
    using assms by (simp add: add_article_def add_article_outcome_def)
  show ?thesis
    unfolding o f returns_outcome using returns_Saved [of "outcome r"] returns_outcome [of r]
    by auto
qed

theorem add_article_status_witness:
  "add_article_outcome (\<lambda>h f. Response 201) \<lparr>username = ''reader'', password = []\<rparr>
     (JStr ''https://x.test'') (JStr ''T'') None [] = Saved \<and>
   add_article_outcome (\<lambda>h f. Response 403) \<lparr>username = ''reader'', password = []\<rparr>
     (JStr ''https://x.test'') (JStr ''T'') None [] = AuthFailed \<and>
   add_article_outcome (\<lambda>h f. Response 400) \<lparr>username = ''reader'', password = []\<rparr>
     (JStr ''https://x.test'') (JStr ''T'') None [] = BadRequest \<and>
   add_article_outcome (\<lambda>h f. Response 500) \<lparr>username = ''reader'', password = []\<rparr>
     (JStr ''https://x.test'') (JStr ''T'') None [] = ServiceUnavailable \<and>
   add_article_outcome (\<lambda>h f. Response 418) \<lparr>username = ''reader'', password = []\<rparr>
     (JStr ''https://x.test'') (JStr ''T'') None [] = UnexpectedStatus \<and>
   add_article_outcome (\<lambda>h f. RequestException) \<lparr>username = ''reader'', password = []\<rparr>
     (JStr ''https://x.test'') (JStr ''T'') None [] = TransportError \<and>
   fst (add_article (\<lambda>h f. Response 201) \<lparr>username = ''reader'', password = []\<rparr>
     (JStr ''https://x.test'') (JStr ''T'') None []) \<and>
   \<not> fst (add_article (\<lambda>h f. Response 418) \<lparr>username = ''reader'', password = []\<rparr>
     (JStr ''https://x.test'') (JStr ''T'') None [])"
  using add_article_status [of "\<lambda>h f. Response 201" "[]" "\<lparr>username = ''reader'', password = []\<rparr>"
          "JStr ''https://x.test''" "JStr ''T''" None "Response 201"]
        add_article_status [of "\<lambda>h f. Response 403" "[]" "\<lparr>username = ''reader'', password = []\<rparr>"
          "JStr ''https://x.test''" "JStr ''T''" None "Response 403"]
        add_article_status [of "\<lambda>h f. Response 400" "[]" "\<lparr>username = ''reader'', password = []\<rparr>"
          "JStr ''https://x.test''" "JStr ''T''" None "Response 400"]
        add_article_status [of "\<lambda>h f. Response 500" "[]" "\<lparr>username = ''reader'', password = []\<rparr>"
          "JStr ''https://x.test''" "JStr ''T''" None "Response 500"]
        add_article_status [of "\<lambda>h f. Response 418" "[]" "\<lparr>username = ''reader'', password = []\<rparr>"
          "JStr ''https://x.test''" "JStr ''T''" None "Response 418"]
        add_article_status [of "\<lambda>h f. RequestException" "[]" "\<lparr>username = ''reader'', password = []\<rparr>"
          "JStr ''https://x.test''" "JStr ''T''" None "RequestException"]
  by simp

section \<open>Signatures\<close>






text \<open>
  Claim C9. With the secret unset (\<open>None\<close>) or empty, verification returns true for
  every payload and every signature string: the signature is not looked at.
\<close>

theorem verify_without_secret:
  "secret = None \<or> secret = Some [] \<Longrightarrow>
   verify_webhook_signature payload signature secret = Inr True"
  by (auto simp: verify_webhook_signature_def)

theorem verify_without_secret_witness:
  "verify_webhook_signature [0x7b, 0x7d] ''not a signature'' None = Inr True \<and>
   verify_webhook_signature [0x7b, 0x7d] ''not a signature'' (Some []) = Inr True"
  using verify_without_secret [of None "[0x7b, 0x7d]" "''not a signature''"]
        verify_without_secret [of "Some []" "[0x7b, 0x7d]" "''not a signature''"]
  by simp

section \<open>Notes\<close>

lemma and_then_Inr [simp]: "and_then (Inr v) calls k = k v"
  by (simp add: and_then_def)

lemma and_then_Inl [simp]: "and_then (Inl e) calls k = (Inl e, calls)"
  by (simp add: and_then_def)

lemma selection_of_form_data:
  "selection_of (form_data self url title sel) =
     (case sel of None \<Rightarrow> None | Some s \<Rightarrow> if s \<noteq> [] then Some (JStr s) else None)"
  by (simp add: selection_of_def form_data_def split: option.splits)

lemma description_of_JStr:
  "description_of (JStr c) =
     Inr (if c = [] then None
          else Some (if length (strip_tags c) > 200 then take 200 (strip_tags c) @ ''...''
                     else strip_tags c))"
  by (simp add: description_of_def Let_def)

text \<open>
  Claim C3. For content \<open>c\<close>, the note is absent when \<open>c\<close> is empty (or the entry has no
  content); otherwise it is the stripped text, cut to its first 200 characters followed
  by three dots when it is longer than 200, and whole when it is not. The stripped text
  is \<open>c\<close> with every tag removed, scanning from the left: it is \<open>c\<close> itself when \<open>c\<close>
  has no tag, and when \<open>c\<close> is \<open>a @ t @ b\<close> with \<open>t\<close> its leftmost tag, it is \<open>a\<close>
  followed by the stripped text of \<open>b\<close>; a string with a tag has a leftmost one, so the
  two cases fix the stripped text of every string. It is what remains of \<open>c\<close> after
  deletions only and contains no tag any more. So untagged content of length 500 gives
  a note of exactly 203 characters, and untagged content of length 50 gives itself.
\<close>

theorem note_derivation:
  "description_of (JStr c) =
     Inr (if c = [] then None
          else Some (if length (strip_tags c) > 200 then take 200 (strip_tags c) @ ''...''
                     else strip_tags c)) \<and>
   (\<not> has_tag c \<longrightarrow> strip_tags c = c) \<and>
   (c = a @ t @ b \<and> leftmost_tag a t b \<longrightarrow> strip_tags c = a @ strip_tags b) \<and>
   (has_tag c \<longrightarrow> (\<exists>a t b. c = a @ t @ b \<and> leftmost_tag a t b)) \<and>
   subseq (strip_tags c) c \<and> \<not> has_tag (strip_tags c) \<and>
   (length (strip_tags c) > 200 \<longrightarrow>
      (\<exists>n. description_of (JStr c) = Inr (Some n) \<and> length n = 203 \<and>
           take 200 n = take 200 (strip_tags c) \<and> drop 200 n = ''...'')) \<and>
   (c \<noteq> [] \<and> length (strip_tags c) \<le> 200 \<longrightarrow>
      description_of (JStr c) = Inr (Some (strip_tags c))) \<and>
   (\<not> has_tag c \<and> length c = 500 \<longrightarrow>
      (\<exists>n. description_of (JStr c) = Inr (Some n) \<and> length n = 203)) \<and>
   (\<not> has_tag c \<and> length c = 50 \<longrightarrow> description_of (JStr c) = Inr (Some c)) \<and>
   (map_of kvs ''content'' = None \<or> map_of kvs ''content'' = Some (JStr []) \<longrightarrow>
      (\<exists>content. py_get (JObj kvs) ''content'' (JStr []) = Inr content \<and>
                 description_of content = Inr None))"
proof -
  have a: "length (strip_tags c) > 200 \<Longrightarrow> c \<noteq> []"
    by auto
  have b: "\<not> has_tag c \<Longrightarrow> length c = 500 \<Longrightarrow> length (strip_tags c) = 500 \<and> c \<noteq> []"
    by (auto simp: strip_tags_id)
  have d: "\<not> has_tag c \<Longrightarrow> length c = 50 \<Longrightarrow> strip_tags c = c \<and> c \<noteq> []"
    by (auto simp: strip_tags_id)
  have e: "map_of kvs ''content'' = None \<or> map_of kvs ''content'' = Some (JStr []) \<Longrightarrow>
      py_get (JObj kvs) ''content'' (JStr []) = Inr (JStr [])"
    by auto
  have l: "c = a @ t @ b \<and> leftmost_tag a t b \<longrightarrow> strip_tags c = a @ strip_tags b"
    by (auto simp: strip_leftmost)
  have h: "has_tag c \<longrightarrow> (\<exists>a t b. c = a @ t @ b \<and> leftmost_tag a t b)"
    using has_tag_leftmost [of c] by blast
  have rest: "description_of (JStr c) =
     Inr (if c = [] then None
          else Some (if length (strip_tags c) > 200 then take 200 (strip_tags c) @ ''...''
                     else strip_tags c)) \<and>
   (\<not> has_tag c \<longrightarrow> strip_tags c = c) \<and>
   subseq (strip_tags c) c \<and> \<not> has_tag (strip_tags c) \<and>
   (length (strip_tags c) > 200 \<longrightarrow>
      (\<exists>n. description_of (JStr c) = Inr (Some n) \<and> length n = 203 \<and>
           take 200 n = take 200 (strip_tags c) \<and> drop 200 n = ''...'')) \<and>
   (c \<noteq> [] \<and> length (strip_tags c) \<le> 200 \<longrightarrow>
      description_of (JStr c) = Inr (Some (strip_tags c))) \<and>
   (\<not> has_tag c \<and> length c = 500 \<longrightarrow>
      (\<exists>n. description_of (JStr c) = Inr (Some n) \<and> length n = 203)) \<and>
   (\<not> has_tag c \<and> length c = 50 \<longrightarrow> description_of (JStr c) = Inr (Some c)) \<and>
   (map_of kvs ''content'' = None \<or> map_of kvs ''content'' = Some (JStr []) \<longrightarrow>
      (\<exists>content. py_get (JObj kvs) ''content'' (JStr []) = Inr content \<and>
                 description_of content = Inr None))"
    unfolding description_of_JStr
    using a b d e subseq_strip_tags [of c] no_tag_strip_tags [of c] strip_tags_id [of c]
    by (auto simp: description_of_JStr)
  from rest l h show ?thesis
    by blast
qed

theorem note_derivation_witness:
  "description_of (JStr ''<p>hi</p>'') = Inr (Some ''hi'') \<and>
   leftmost_tag [] ''<p>'' ''hi</p>'' \<and> leftmost_tag ''hi'' ''</p>'' [] \<and> \<not> has_tag [] \<and>
   (\<exists>n. description_of (JStr (replicate 500 CHR ''a'')) = Inr (Some n) \<and> length n = 203) \<and>
   description_of (JStr (replicate 50 CHR ''a'')) = Inr (Some (replicate 50 CHR ''a'')) \<and>
   (\<exists>content. py_get (JObj [(''url'', JStr ''https://x.test'')]) ''content'' (JStr []) = Inr content \<and>
              description_of content = Inr None)"
proof -
  have l1: "leftmost_tag [] ''<p>'' ''hi</p>''"
    by (simp add: leftmost_tag_iff is_tag_def)
  have l2: "leftmost_tag ''hi'' ''</p>'' []"
    unfolding leftmost_tag_Cons by (simp add: leftmost_tag_iff starts_tag_Cons is_tag_def)
  have s1: "strip_tags ''<p>hi</p>'' = strip_tags ''hi</p>''"
    using note_derivation [of "''<p>hi</p>''" "[]" "''<p>''" "''hi</p>''" "[]"] l1 by simp
  have s2: "strip_tags ''hi</p>'' = ''hi'' @ strip_tags []"
    using note_derivation [of "''hi</p>''" "''hi''" "''</p>''" "[]" "[]"] l2 by simp
  have s3: "strip_tags [] = []"
    using note_derivation [of "[]" "[]" "[]" "[]" "[]"] by (simp add: has_tag_Nil)
  have d: "description_of (JStr ''<p>hi</p>'') = Inr (Some ''hi'')"
    using note_derivation [of "''<p>hi</p>''" "[]" "''<p>''" "''hi</p>''" "[]"] s1 s2 s3
    by simp
  show ?thesis
    using d l1 l2
      note_derivation [of "replicate 500 CHR ''a''" "[]" "[]" "[]" "[(''url'', JStr ''https://x.test'')]"]
      note_derivation [of "replicate 50 CHR ''a''" "[]" "[]" "[]" "[(''url'', JStr ''https://x.test'')]"]
    by (simp add: no_bracket_no_tag has_tag_Nil)
qed

section \<open>One entry\<close>

lemma try_entry_object:
  assumes "py_get entry ''url'' JNull = Inr url"
    and "py_get entry ''title'' (JStr []) = Inr title"
    and "py_get entry ''content'' (JStr []) = Inr content"
  shows "try_entry up client entry calls =
           (if \<not> truthy url then (Inr False, calls)
            else case description_of content of
                   Inl e \<Rightarrow> (Inl e, calls)
                 | Inr d \<Rightarrow> (Inr (fst (add_article up client url title d calls)),
                            calls @ [form_data client url title d]))"
  using assms by (simp add: try_entry_def add_article_def split: sum.splits)

lemma try_saved_object:
  assumes "py_get entry ''url'' JNull = Inr url"
    and "py_get entry ''title'' (JStr []) = Inr title"
    and "py_get entry ''content'' (JStr []) = Inr content"
  shows "try_saved up client entry calls =
           (if \<not> truthy url then (Inr False, calls)
            else case description_of content of
                   Inl e \<Rightarrow> (Inl e, calls)
                 | Inr d \<Rightarrow>
                     (let note = (case d of
                                    None \<Rightarrow> ''[Saved from Miniflux]''
                                  | Some t \<Rightarrow> if t \<noteq> [] then ''[Saved from Miniflux] '' @ t
                                              else ''[Saved from Miniflux]'')
                      in (Inr (fst (add_article up client url title (Some note) calls)),
                          calls @ [form_data client url title (Some note)])))"
  using assms by (simp add: try_saved_def add_article_def Let_def split: sum.splits)

text \<open>
  Claim C8. For an entry with a URL, \<^verbatim>\<open>process_saved_entry\<close> posts a form whose
  \<^verbatim>\<open>selection\<close> is always present and starts with the tag: the tag, a space and the
  content-derived note when that note is not empty, the tag alone otherwise.
  \<^verbatim>\<open>process_new_entries\<close> posts the content-derived note as it is (no field when there is
  none or it is empty): it adds nothing.
\<close>

theorem provenance_tag:
  assumes "py_get entry ''url'' JNull = Inr url" and "truthy url"
    and "py_get entry ''title'' (JStr []) = Inr title"
    and "py_get entry ''content'' (JStr []) = Inr content"
    and "description_of content = Inr d"
    and "INSTAPAPER_USERNAME cfg = Some u" and "u \<noteq> []"
  shows "\<exists>note f g.
           snd (process_saved_entry cfg up entry calls) = calls @ [f] \<and>
           selection_of f = Some (JStr note) \<and>
           prefix ''[Saved from Miniflux]'' note \<and>
           note = (case d of
                     None \<Rightarrow> ''[Saved from Miniflux]''
                   | Some t \<Rightarrow> if t \<noteq> [] then ''[Saved from Miniflux] '' @ t
                               else ''[Saved from Miniflux]'') \<and>
           snd (process_new_entries cfg up (JArr [entry]) calls) = calls @ [g] \<and>
           selection_of g = (case d of
                               None \<Rightarrow> None
                             | Some t \<Rightarrow> if t \<noteq> [] then Some (JStr t) else None)"
proof -
  let ?client = "\<lparr>username = u, password = INSTAPAPER_PASSWORD cfg\<rparr>"
  let ?note = "case d of
                 None \<Rightarrow> ''[Saved from Miniflux]''
               | Some t \<Rightarrow> if t \<noteq> [] then ''[Saved from Miniflux] '' @ t
                           else ''[Saved from Miniflux]''"
  have ne: "?note \<noteq> []"
    by (simp split: option.splits)
  have s: "snd (process_saved_entry cfg up entry calls)
             = calls @ [form_data ?client url title (Some ?note)]"
    using assms
    by (simp add: process_saved_entry_def try_saved_object [of entry url title content] Let_def)
  have n: "snd (process_new_entries cfg up (JArr [entry]) calls)
             = calls @ [form_data ?client url title d]"
    using assms
    by (simp add: process_new_entries_def try_entry_object [of entry url title content])
  have p: "prefix ''[Saved from Miniflux]'' ?note"
    by (simp add: prefix_def split: option.splits)
  have sf: "selection_of (form_data ?client url title (Some ?note)) = Some (JStr ?note)"
    using ne by (simp add: selection_of_form_data)
  show ?thesis
    using s n p sf selection_of_form_data [of ?client url title d] by blast
qed

theorem provenance_tag_witness:
  "\<exists>f g.
     snd (process_saved_entry
            \<lparr>MINIFLUX_WEBHOOK_SECRET = None, INSTAPAPER_USERNAME = Some ''reader'',
              INSTAPAPER_PASSWORD = []\<rparr>
            (\<lambda>h f. Response 201)
            (JObj [(''url'', JStr ''https://y.test''), (''content'', JStr ''<p>hi</p>'')]) []) = [f] \<and>
     selection_of f = Some (JStr ''[Saved from Miniflux] hi'') \<and>
     snd (process_new_entries
            \<lparr>MINIFLUX_WEBHOOK_SECRET = None, INSTAPAPER_USERNAME = Some ''reader'',
              INSTAPAPER_PASSWORD = []\<rparr>
            (\<lambda>h f. Response 201)
            (JArr [JObj [(''url'', JStr ''https://y.test''), (''content'', JStr ''<p>hi</p>'')]]) [])
       = [g] \<and>
     selection_of g = Some (JStr ''hi'')"
proof -
  have d: "description_of (JStr ''<p>hi</p>'') = Inr (Some ''hi'')"
    by (simp add: description_of_def strip_tags.simps(2))
  show ?thesis
    using provenance_tag [of "JObj [(''url'', JStr ''https://y.test''), (''content'', JStr ''<p>hi</p>'')]"
        "JStr ''https://y.test''" "JStr []" "JStr ''<p>hi</p>''" "Some ''hi''"
        "\<lparr>MINIFLUX_WEBHOOK_SECRET = None, INSTAPAPER_USERNAME = Some ''reader'',
          INSTAPAPER_PASSWORD = []\<rparr>" "''reader''" "\<lambda>h f. Response 201" "[]"] d
    by simp
qed

section \<open>Entries without a URL\<close>

lemma entries_loop_skip:
  "try_entry up client entry calls = (Inr False, calls) \<Longrightarrow>
   entries_loop up client (entry # rest) n calls = entries_loop up client rest n calls"
  by simp

lemma entries_loop_append:
  "entries_loop up client (xs @ ys) n calls =
     (case entries_loop up client xs n calls of
        (Inr m, calls') \<Rightarrow> entries_loop up client ys m calls'
      | (Inl e, calls') \<Rightarrow> (Inl e, calls'))"
  by (induction xs arbitrary: n calls) (auto split: prod.splits sum.splits)

text \<open>
  Claim C4. An entry whose \<^verbatim>\<open>url\<close> is missing or empty (or any other false value) is
  skipped on both paths. \<^verbatim>\<open>process_saved_entry\<close> returns \<^verbatim>\<open>False\<close> and makes no call.
  In a batch the entry makes no call and is not counted: the batch with the entry gives
  the same count and the same calls as the batch without it, and the batch of that
  entry alone counts 0 and calls nothing.
\<close>

theorem url_less_entry_skipped:
  assumes "py_get entry ''url'' JNull = Inr url" and "\<not> truthy url"
  shows "process_saved_entry cfg up entry calls = (Inr False, calls) \<and>
         process_new_entries cfg up (JArr [entry]) calls = (Inr 0, calls) \<and>
         process_new_entries cfg up (JArr (before @ entry # after)) calls
           = process_new_entries cfg up (JArr (before @ after)) calls"
proof -
  from assms(1) obtain kvs where e: "entry = JObj kvs"
    by (cases entry) simp_all
  have t: "\<And>client calls. try_entry up client entry calls = (Inr False, calls)"
    using assms by (simp add: e try_entry_def)
  have s: "\<And>client calls. try_saved up client entry calls = (Inr False, calls)"
    using assms by (simp add: e try_saved_def)
  have l: "\<And>client n calls. entries_loop up client (before @ entry # after) n calls
             = entries_loop up client (before @ after) n calls"
    by (simp add: entries_loop_append t split: prod.splits sum.splits)
  show ?thesis
    by (simp add: process_saved_entry_def process_new_entries_def s t l
        split: option.splits)
qed

theorem url_less_entry_skipped_witness:
  "process_saved_entry
     \<lparr>MINIFLUX_WEBHOOK_SECRET = None, INSTAPAPER_USERNAME = Some ''reader'', INSTAPAPER_PASSWORD = []\<rparr>
     (\<lambda>h f. Response 201) (JObj [(''id'', JInt 1), (''title'', JStr ''T'')]) [] = (Inr False, []) \<and>
   process_new_entries
     \<lparr>MINIFLUX_WEBHOOK_SECRET = None, INSTAPAPER_USERNAME = Some ''reader'', INSTAPAPER_PASSWORD = []\<rparr>
     (\<lambda>h f. Response 201) (JArr [JObj [(''id'', JInt 1), (''url'', JStr [])]]) [] = (Inr 0, [])"
  using url_less_entry_skipped [of "JObj [(''id'', JInt 1), (''title'', JStr ''T'')]" JNull
          "\<lparr>MINIFLUX_WEBHOOK_SECRET = None, INSTAPAPER_USERNAME = Some ''reader'',
            INSTAPAPER_PASSWORD = []\<rparr>" "\<lambda>h f. Response 201" "[]" "[]" "[]"]
        url_less_entry_skipped [of "JObj [(''id'', JInt 1), (''url'', JStr [])]" "JStr []"
          "\<lparr>MINIFLUX_WEBHOOK_SECRET = None, INSTAPAPER_USERNAME = Some ''reader'',
            INSTAPAPER_PASSWORD = []\<rparr>" "\<lambda>h f. Response 201" "[]" "[]" "[]"]
  by simp

section \<open>The batch\<close>

lemmas fixtures = answering_def reader_config_def signed_config_def request_with_def

lemma py_get_object: "is_object entry \<Longrightarrow> \<exists>v. py_get entry k d = Inr v"
  by (cases entry) simp_all

text \<open>
  One entry makes at most one call, and it is counted exactly when that call is answered
  with status 201.
\<close>

lemma try_entry_one_call:
  "(fst (try_entry up client entry calls) \<noteq> Inr True \<and> snd (try_entry up client entry calls) = calls) \<or>
   (\<exists>f. snd (try_entry up client entry calls) = calls @ [f] \<and>
        fst (try_entry up client entry calls) = Inr (up calls f = Response 201))"
  by (auto simp: try_entry_def and_then_def add_article_def add_article_outcome_def returns_outcome
      split: sum.splits)

text \<open>
  When every entry of the batch is a JSON object, the loop is the batch of the
  specification: the \<^verbatim>\<open>except\<close> clause can read the entry's \<^verbatim>\<open>id\<close>, and the loop goes on.
\<close>

lemma entries_loop_objects:
  "list_all is_object es \<Longrightarrow>
   entries_loop up client es n calls =
     (Inr (n + fst (isolated_batch up client es calls)), snd (isolated_batch up client es calls))"
proof (induction es arbitrary: n calls)
  case Nil
  show ?case by simp
next
  case (Cons entry es)
  from Cons.prems have o: "is_object entry" and os: "list_all is_object es"
    by simp_all
  obtain r calls' where t: "try_entry up client entry calls = (r, calls')"
    by (cases "try_entry up client entry calls")
  obtain i where i: "py_get entry ''id'' (JStr ''unknown'') = Inr i"
    using py_get_object [OF o] by blast
  show ?case
  proof (cases r)
    case (Inl e)
    with t i Cons.IH [OF os] show ?thesis
      by (simp split: prod.splits)
  next
    case (Inr success)
    with t Cons.IH [OF os] show ?thesis
      by (simp split: prod.splits)
  qed
qed

text \<open>
  Claim C5, at a batch whose first entry is a string and whose second is an entry with a
  URL, the upstream answering 201. Handling the string raises \<^verbatim>\<open>AttributeError\<close>; the
  \<^verbatim>\<open>except\<close> clause raises it again when it reads \<^verbatim>\<open>entry.get('id', 'unknown')\<close> for its
  log line, and the function is left: no call is made for the second entry, and the
  handler answers 500. The batch of the specification saves the second entry and
  counts 1.
\<close>

theorem batch_aborts_on_non_object:
  "process_new_entries reader_config (answering (Response 201))
     (JArr [JStr ''x'', JObj [(''url'', JStr ''https://x.test'')]]) []
     = (Inl AttributeError, []) \<and>
   isolated_batch (answering (Response 201)) \<lparr>username = ''reader'', password = []\<rparr>
     [JStr ''x'', JObj [(''url'', JStr ''https://x.test'')]] []
     = (1, [[(''username'', JStr ''reader''), (''password'', JStr []),
             (''url'', JStr ''https://x.test'')]]) \<and>
   webhook_handler reader_config (answering (Response 201))
     (request_with ''new_entries''
        (Inr (JObj [(''entries'', JArr [JStr ''x'', JObj [(''url'', JStr ''https://x.test'')]])]))) []
     = (\<lparr>body = JObj [(''error'', JStr ''Internal server error'')], status_code = 500\<rparr>, [])"
  by (simp add: fixtures process_new_entries_def try_entry_def description_of_def add_article_def
      add_article_outcome_def form_data_def webhook_handler_def try_webhook_def signature_gate_def
      header_def route_new_entries_def respond_def)

section \<open>The handler\<close>





lemma process_saved_entry_fails:
  assumes "is_object entry" and "\<forall>f. up calls f \<noteq> Response 201"
  shows "fst (process_saved_entry cfg up entry calls) = Inr False"
proof -
  from assms(1) obtain kvs where e: "entry = JObj kvs"
    by (cases entry) simp_all
  show ?thesis
    using assms(2)
    by (auto simp: e process_saved_entry_def try_saved_def and_then_def add_article_def
        add_article_outcome_def returns_outcome Let_def split: option.splits sum.splits)
qed

text \<open>
  Claim C7. A \<^verbatim>\<open>save_entry\<close> request that passes the signature check and carries an entry
  with a URL, at a moment when the upstream answers no call with 201 (it answers 403,
  say, or the call fails), is answered with status 200 and the body
  \<^verbatim>\<open>{status: "error", event_type: "save_entry", entry_processed: false, entry_title: t}\<close>,
  \<open>t\<close> being the entry's title (\<^verbatim>\<open>Unknown title\<close> when it has none).
\<close>

theorem save_entry_failure_response:
  assumes "signature_gate cfg req = Inr True"
    and "event_type_header req = Some ''save_entry''"
    and "get_json req = Inr data"
    and "py_get data ''entry'' (JObj []) = Inr entry"
    and "py_get entry ''url'' JNull = Inr url" and "truthy url"
    and "py_get entry ''title'' (JStr ''Unknown title'') = Inr entry_title"
    and "\<forall>f. up calls f \<noteq> Response 201"
  shows "fst (webhook_handler cfg up req calls) =
           \<lparr>body = JObj [(''status'', JStr ''error''),
                         (''event_type'', JStr ''save_entry''),
                         (''entry_processed'', JBool False),
                         (''entry_title'', entry_title)],
            status_code = 200\<rparr>"
proof -
  from assms(5) have o: "is_object entry"
    by (cases entry) simp_all
  have d: "truthy data"
  proof (cases data)
    case (JObj kvs)
    show ?thesis
    proof (cases kvs)
      case Nil
      with JObj assms(4,5,6) show ?thesis by auto
    next
      case Cons
      with JObj show ?thesis by simp
    qed
  qed (use assms(4) in simp_all)
  obtain r calls' where p: "process_saved_entry cfg up entry calls = (r, calls')"
    by (cases "process_saved_entry cfg up entry calls")
  have "fst (process_saved_entry cfg up entry calls) = Inr False"
    using o assms(8) by (rule process_saved_entry_fails)
  with p have r: "r = Inr False"
    by simp
  show ?thesis
    using assms(1,2,3,4,7) d p r
    by (simp add: webhook_handler_def try_webhook_def header_def route_save_entry_def
        and_then_def respond_def)
qed

theorem save_entry_failure_response_witness:
  "fst (webhook_handler reader_config (answering (Response 403))
     (request_with ''save_entry'' (Inr (JObj [(''entry'',
         JObj [(''id'', JInt 9), (''url'', JStr ''https://y.test''), (''title'', JStr ''S'')])]))) [])
   = \<lparr>body = JObj [(''status'', JStr ''error''), (''event_type'', JStr ''save_entry''),
                   (''entry_processed'', JBool False), (''entry_title'', JStr ''S'')],
      status_code = 200\<rparr>"
  using save_entry_failure_response
    [of reader_config
        "request_with ''save_entry'' (Inr (JObj [(''entry'',
            JObj [(''id'', JInt 9), (''url'', JStr ''https://y.test''), (''title'', JStr ''S'')])]))"
        "JObj [(''entry'',
            JObj [(''id'', JInt 9), (''url'', JStr ''https://y.test''), (''title'', JStr ''S'')])]"
        "JObj [(''id'', JInt 9), (''url'', JStr ''https://y.test''), (''title'', JStr ''S'')]"
        "JStr ''https://y.test''" "JStr ''S''" "answering (Response 403)" "[]"]
  by (simp add: fixtures signature_gate_def)

section \<open>Rejections\<close>












end
